theory Spec2Isabelle
  imports Complex_Main "HOL-Library.Multiset" "HOL-Library.AList"
begin

section \<open>Common Python notions\<close>

text \<open>
  The notebooks are linear Python scripts around third-party libraries. The libraries
  (rank-bm25, NLTK, numpy, feedparser, requests, BeautifulSoup, transformers,
  sentence-transformers, scikit-learn) are not part of the repository: a call into one
  of them is a parameter of the model, and a call that raises returns \<open>Inl\<close> of the
  exception. Python floats are modelled as \<open>real\<close>, so NaN and the infinities are
  outside the model. \<^verbatim>\<open>str\<close> is \<open>string\<close>: a \<open>char\<close> is the code point of the
  same number, so the texts of the model are the Python strings over the code points 0
  to 255, and the character classes (\<^verbatim>\<open>str.lower\<close>, \<^verbatim>\<open>str.isalpha\<close>,
  \<^verbatim>\<open>str.strip\<close>, the \<^verbatim>\<open>\w\<close> and \<^verbatim>\<open>\s\<close> of \<^verbatim>\<open>re\<close>) are the ones Python has on
  these code points.
\<close>

datatype py_error =
    AttributeError string
  | KeyError string
  | IndexError
  | TypeError
  | LibraryError string

subsection \<open>Sequences\<close>

text \<open>\<^verbatim>\<open>xs[:n]\<close>: a negative bound counts from the end.\<close>

definition py_slice_upto :: "'a list \<Rightarrow> int \<Rightarrow> 'a list" where
  "py_slice_upto xs n =
     (if 0 \<le> n then take (nat n) xs else take (nat (int (length xs) + n)) xs)"

text \<open>\<^verbatim>\<open>xs[s:]\<close>: a negative start counts from the end.\<close>

definition py_slice_from :: "'a list \<Rightarrow> int \<Rightarrow> 'a list" where
  "py_slice_from xs s =
     (if s < 0 then drop (nat (int (length xs) + s)) xs else drop (nat s) xs)"

text \<open>\<^verbatim>\<open>xs[i]\<close> for an index that is not negative.\<close>

definition py_getitem :: "'a list \<Rightarrow> nat \<Rightarrow> py_error + 'a" where
  "py_getitem xs i = (if i < length xs then Inr (xs ! i) else Inl IndexError)"

text \<open>
  \<^verbatim>\<open>[f(x) for x in xs]\<close> where \<^verbatim>\<open>f(x)\<close> may raise: the first exception ends the
  comprehension.
\<close>

fun py_comprehension :: "('a \<Rightarrow> py_error + 'b) \<Rightarrow> 'a list \<Rightarrow> py_error + 'b list" where
  "py_comprehension f [] = Inr []"
| "py_comprehension f (x # xs) =
     (case f x of
        Inl e \<Rightarrow> Inl e
      | Inr y \<Rightarrow> (case py_comprehension f xs of Inl e \<Rightarrow> Inl e | Inr ys \<Rightarrow> Inr (y # ys)))"

text \<open>
  \<^verbatim>\<open>for x in xs: out.append(body(x))\<close> in a cell without an exception handler: the
  loop runs on the list \<open>out\<close> built so far, and an exception of the body ends the
  cell with \<open>out\<close> as it stands. The result is the list and the exception, if any.
\<close>

fun py_for :: "('a \<Rightarrow> py_error + 'b) \<Rightarrow> 'a list \<Rightarrow> 'b list \<Rightarrow> 'b list \<times> py_error option" where
  "py_for body [] out = (out, None)"
| "py_for body (x # xs) out =
     (case body x of
        Inl e \<Rightarrow> (out, Some e)
      | Inr y \<Rightarrow> py_for body xs (out @ [y]))"

text \<open>
  \<^verbatim>\<open>xs.sort(key=k, reverse=True)\<close> and \<^verbatim>\<open>sorted(xs, key=k, reverse=True)\<close>: the sort
  is stable, and with \<^verbatim>\<open>reverse=True\<close> CPython reverses the list, sorts it
  ascending (stably) and reverses the result, so that elements with equal keys keep
  their original order.
\<close>

definition py_sort_reverse :: "('a \<Rightarrow> 'k::linorder) \<Rightarrow> 'a list \<Rightarrow> 'a list" where
  "py_sort_reverse key xs = rev (sort_key key (rev xs))"

subsection \<open>Strings\<close>





text \<open>Whitespace (\<^verbatim>\<open>c.isspace()\<close>, and \<^verbatim>\<open>\s\<close>): tab, line feed, vertical tab, form
  feed, carriage return, the separators 0x1C to 0x1F, the space, the next-line
  character 0x85 and the no-break space 0xA0.\<close>

definition py_isspace_char :: "char \<Rightarrow> bool" where
  "py_isspace_char c =
     ((9 \<le> (of_char c :: nat) \<and> (of_char c :: nat) \<le> 13)
      \<or> (28 \<le> (of_char c :: nat) \<and> (of_char c :: nat) \<le> 32)
      \<or> (of_char c :: nat) = 133 \<or> (of_char c :: nat) = 160)"




definition py_strip :: "string \<Rightarrow> string" where
  "py_strip s = rev (dropWhile py_isspace_char (rev (dropWhile py_isspace_char s)))"

text \<open>\<^verbatim>\<open>sep.join(xs)\<close>\<close>

fun py_join :: "string \<Rightarrow> string list \<Rightarrow> string" where
  "py_join sep [] = []"
| "py_join sep [x] = x"
| "py_join sep (x # y # ys) = x @ sep @ py_join sep (y # ys)"



section \<open>HTML text extraction (article ranking and semantic search)\<close>

text \<open>
  A text node of the parsed page, as \<^verbatim>\<open>soup.findAll(text=True)\<close> returns it: its
  text, the name of its parent tag (\<^verbatim>\<open>element.parent.name\<close>) and whether it is an
  HTML comment (\<^verbatim>\<open>isinstance(element, Comment)\<close>).
\<close>

record element =
  node_text :: string
  parent_name :: string
  is_comment :: bool

text \<open>
  \<^verbatim>\<open>
  def tag_visible(element):
      if element.parent.name in ['p']:
          return True
      if isinstance(element, Comment):
          return False
      return False
  \<close>
\<close>

definition tag_visible :: "element \<Rightarrow> bool" where
  "tag_visible element =
     (if parent_name element \<in> set [''p''] then True
      else if is_comment element then False
      else False)"

text \<open>
  \<^verbatim>\<open>
  def text_from_html(html):
      soup = BeautifulSoup(html.content, 'lxml')
      texts = soup.findAll(text=True)
      visible_texts = filter(tag_visible, texts)
      return u" ".join(t.strip() for t in visible_texts)
  \<close>
  \<open>find_all_text\<close> is BeautifulSoup: the text nodes of the page in document order.
\<close>

definition text_from_html :: "('html \<Rightarrow> py_error + element list) \<Rightarrow> 'html \<Rightarrow> py_error + string" where
  "text_from_html find_all_text html =
     (case find_all_text html of
        Inl e \<Rightarrow> Inl e
      | Inr texts \<Rightarrow>
          (let visible_texts = filter tag_visible texts
           in Inr (py_join '' '' (map (\<lambda>t. py_strip (node_text t)) visible_texts))))"

section \<open>article-ranking-with-an-nli-model\<close>

text \<open>What the zero-shot classification pipeline returns: a dictionary with the keys
  \<^verbatim>\<open>sequence\<close>, \<^verbatim>\<open>labels\<close> and \<^verbatim>\<open>scores\<close>.\<close>

record zero_shot_result =
  zs_sequence :: string
  zs_labels :: "string list"
  zs_scores :: "real list"

text \<open>
  \<^verbatim>\<open>
  def classifier(source_text, search_term):
      src_text = source_text[:1024]
      classification = pipeline("zero-shot-classification", device=0)
      results = classification(src_text, search_term)
      return results
  \<close>
  \<open>classification\<close> is the pipeline of the transformers library.
\<close>

definition classifier ::
  "(string \<Rightarrow> string \<Rightarrow> py_error + zero_shot_result) \<Rightarrow> string \<Rightarrow> string
     \<Rightarrow> py_error + zero_shot_result" where
  "classifier classification source_text search_term =
     (let src_text = py_slice_upto source_text 1024;
          results = classification src_text search_term
      in results)"

text \<open>
  \<^verbatim>\<open>re.sub(r'\s([?.!",](?:\s|$))', r'\1', summary_text)\<close>: a whitespace character
  before one of \<^verbatim>\<open>? . ! " ,\<close> that is followed by whitespace or by the end of the
  text is deleted; matches are found left to right and do not overlap.
\<close>

definition re_punctuation :: "char \<Rightarrow> bool" where
  "re_punctuation c = (c \<in> set [CHR ''?'', CHR ''.'', CHR ''!'', CHR 0x22, CHR '',''])"

fun re_sub_space_before_punctuation :: "string \<Rightarrow> string" where
  "re_sub_space_before_punctuation (a # b # c # rest) =
     (if py_isspace_char a \<and> re_punctuation b \<and> py_isspace_char c
      then b # c # re_sub_space_before_punctuation rest
      else a # re_sub_space_before_punctuation (b # c # rest))"
| "re_sub_space_before_punctuation [a, b] =
     (if py_isspace_char a \<and> re_punctuation b then [b] else [a, b])"
| "re_sub_space_before_punctuation s = s"

text \<open>
  \<^verbatim>\<open>
  def summarise(source_text):
      src_text = source_text[:1024]
      summarization = pipeline("summarization")
      summary_text = summarization(src_text, min_length = 100)[0]['summary_text']
      summary_text = re.sub(r'\s([?.!",](?:\s|$))', r'\1', summary_text)
      return summary_text
  \<close>
  \<open>summarization\<close> is the pipeline of the transformers library; it returns a list of
  dictionaries.
\<close>

definition summarise ::
  "(string \<Rightarrow> py_error + (string \<times> string) list list) \<Rightarrow> string \<Rightarrow> py_error + string" where
  "summarise summarization source_text =
     (let src_text = py_slice_upto source_text 1024
      in case summarization src_text of
           Inl e \<Rightarrow> Inl e
         | Inr out \<Rightarrow>
             (case out of
                [] \<Rightarrow> Inl IndexError
              | d # _ \<Rightarrow>
                  (case map_of d ''summary_text'' of
                     None \<Rightarrow> Inl (KeyError ''summary_text'')
                   | Some summary_text \<Rightarrow>
                       Inr (re_sub_space_before_punctuation summary_text))))"

text \<open>
  An entry of a parsed feed (feedparser). Reading an attribute the entry does not have
  raises \<^verbatim>\<open>AttributeError\<close>. \<open>struct_time\<close> is the nine fields of
  \<^verbatim>\<open>time.struct_time\<close>.
\<close>

type_synonym struct_time = "int list"

record entry =
  title :: "string option"
  link :: "string option"
  summary :: "string option"
  published_parsed :: "struct_time option"

definition py_getattr :: "string \<Rightarrow> 'a option \<Rightarrow> py_error + 'a" where
  "py_getattr name field = (case field of None \<Rightarrow> Inl (AttributeError name) | Some v \<Rightarrow> Inr v)"

text \<open>The libraries the article-ranking notebook calls. \<open>time_time k\<close> is what the
  \<open>k\<close>-th call of \<^verbatim>\<open>time.time()\<close> returns.\<close>

record 'html libs =
  time_time :: "nat \<Rightarrow> real"
  time_mktime :: "struct_time \<Rightarrow> py_error + real"
  requests_get :: "string \<Rightarrow> py_error + 'html"
  find_all_text :: "'html \<Rightarrow> py_error + element list"
  zero_shot :: "string \<Rightarrow> string \<Rightarrow> py_error + zero_shot_result"
  summarization :: "string \<Rightarrow> py_error + (string \<times> string) list list"

text \<open>An article is a \<^verbatim>\<open>dict\<close>: its items in insertion order.\<close>

datatype pyval = Str string | Time struct_time | Num real

type_synonym article = "(string \<times> pyval) list"

text \<open>
  \<^verbatim>\<open>
  entries = [entry for entry in newsfeed.entries
             if time.time() - time.mktime(entry.published_parsed) < (86400*days)]
  \<close>
\<close>

fun recent_entries :: "'html libs \<Rightarrow> int \<Rightarrow> nat \<Rightarrow> entry list \<Rightarrow> py_error + entry list" where
  "recent_entries L days k [] = Inr []"
| "recent_entries L days k (entry # rest) =
     (let now = time_time L k
      in case py_getattr ''published_parsed'' (published_parsed entry) of
           Inl e \<Rightarrow> Inl e
         | Inr p \<Rightarrow>
             (case time_mktime L p of
                Inl e \<Rightarrow> Inl e
              | Inr t \<Rightarrow>
                  (case recent_entries L days (Suc k) rest of
                     Inl e \<Rightarrow> Inl e
                   | Inr es \<Rightarrow> Inr (if now - t < 86400 * real_of_int days then entry # es else es))))"

text \<open>
  The body of the loop over the entries:
  \<^verbatim>\<open>
      html = requests.get(entry.link)
      src_text = text_from_html(html)
      classification = classifier(src_text, search_term)
      article = dict()
      article["title"] = entry.title
      article["link"] = entry.link
      article["src_text"] = src_text
      article["published"] = entry.published_parsed
      article["relevancy"] = classification["scores"][0]
  \<close>
\<close>

definition article_of_entry :: "'html libs \<Rightarrow> string \<Rightarrow> entry \<Rightarrow> py_error + article" where
  "article_of_entry L search_term entry =
     (case py_getattr ''link'' (link entry) of Inl e \<Rightarrow> Inl e | Inr url \<Rightarrow>
      case requests_get L url of Inl e \<Rightarrow> Inl e | Inr html \<Rightarrow>
      case text_from_html (find_all_text L) html of Inl e \<Rightarrow> Inl e | Inr src_text \<Rightarrow>
      case classifier (zero_shot L) src_text search_term of Inl e \<Rightarrow> Inl e | Inr classification \<Rightarrow>
      let article = [] in
      case py_getattr ''title'' (title entry) of Inl e \<Rightarrow> Inl e | Inr t \<Rightarrow>
      let article = AList.update ''title'' (Str t) article in
      case py_getattr ''link'' (link entry) of Inl e \<Rightarrow> Inl e | Inr l \<Rightarrow>
      let article = AList.update ''link'' (Str l) article;
          article = AList.update ''src_text'' (Str src_text) article in
      case py_getattr ''published_parsed'' (published_parsed entry) of Inl e \<Rightarrow> Inl e | Inr p \<Rightarrow>
      let article = AList.update ''published'' (Time p) article in
      case py_getitem (zs_scores classification) 0 of Inl e \<Rightarrow> Inl e | Inr s \<Rightarrow>
      let article = AList.update ''relevancy'' (Num s) article in
      Inr article)"

text \<open>
  \<^verbatim>\<open>
  articles = []
  entries = [...]
  for entry in tqdm(entries, total=len(entries)):
      ...
      articles.append(article)
  \<close>
  The result is the list \<^verbatim>\<open>articles\<close> when the cell ends, and the exception that
  ended it, if any.
\<close>

definition articles_cell ::
  "'html libs \<Rightarrow> string \<Rightarrow> int \<Rightarrow> entry list \<Rightarrow> article list \<times> py_error option" where
  "articles_cell L search_term days newsfeed_entries =
     (let articles = []
      in case recent_entries L days 0 newsfeed_entries of
           Inl e \<Rightarrow> (articles, Some e)
         | Inr entries \<Rightarrow> py_for (article_of_entry L search_term) entries articles)"

text \<open>\<^verbatim>\<open>itemgetter(key)(d)\<close>, that is \<^verbatim>\<open>d[key]\<close>.\<close>

definition itemgetter :: "string \<Rightarrow> article \<Rightarrow> py_error + pyval" where
  "itemgetter key d = (case map_of d key of None \<Rightarrow> Inl (KeyError key) | Some v \<Rightarrow> Inr v)"

text \<open>The value as a float, as the sort and the score of the output need it (the loop
  stores a float under \<^verbatim>\<open>"relevancy"\<close>).\<close>

fun as_float :: "pyval \<Rightarrow> py_error + real" where
  "as_float (Num r) = Inr r"
| "as_float v = Inl TypeError"

fun as_str :: "pyval \<Rightarrow> py_error + string" where
  "as_str (Str s) = Inr s"
| "as_str v = Inl TypeError"

definition relevancy_key :: "article \<Rightarrow> py_error + real" where
  "relevancy_key d =
     (case itemgetter ''relevancy'' d of Inl e \<Rightarrow> Inl e | Inr v \<Rightarrow> as_float v)"

text \<open>
  \<^verbatim>\<open>sorted_articles = sorted(articles, key=itemgetter("relevancy"), reverse=True)\<close>:
  the keys are computed first, one per article, then the articles are sorted on them.
\<close>

definition sorted_articles :: "article list \<Rightarrow> py_error + article list" where
  "sorted_articles articles =
     (case py_comprehension relevancy_key articles of
        Inl e \<Rightarrow> Inl e
      | Inr keys \<Rightarrow> Inr (map snd (py_sort_reverse fst (zip keys articles))))"

text \<open>
  The body of the output loop. What \<^verbatim>\<open>printmd\<close> displays is modelled by the values
  the format string receives: title, link, summary, search term and score.
  \<^verbatim>\<open>
      summary = summarise(article["src_text"])
      printmd("**{}**<br>{}<br>{}<br>**Search term:** {} | **Score:** {:6.3f}<br><br>"
              .format(article["title"], article["link"], summary, search_term,
                      100*article["relevancy"]))
  \<close>
\<close>

definition display_article ::
  "'html libs \<Rightarrow> string \<Rightarrow> article \<Rightarrow> py_error + (pyval \<times> pyval \<times> string \<times> string \<times> real)" where
  "display_article L search_term article =
     (case itemgetter ''src_text'' article of Inl e \<Rightarrow> Inl e | Inr v \<Rightarrow>
      case as_str v of Inl e \<Rightarrow> Inl e | Inr src_text \<Rightarrow>
      case summarise (summarization L) src_text of Inl e \<Rightarrow> Inl e | Inr summ \<Rightarrow>
      case itemgetter ''title'' article of Inl e \<Rightarrow> Inl e | Inr t \<Rightarrow>
      case itemgetter ''link'' article of Inl e \<Rightarrow> Inl e | Inr l \<Rightarrow>
      case relevancy_key article of Inl e \<Rightarrow> Inl e | Inr r \<Rightarrow>
      Inr (t, l, summ, search_term, 100 * r))"

text \<open>
  \<^verbatim>\<open>
  for article in sorted_articles[:number_of_articles]:
      ...
  \<close>
  The result is what was displayed, and the exception that ended the cell, if any.
\<close>

definition output_cell ::
  "'html libs \<Rightarrow> string \<Rightarrow> int \<Rightarrow> article list
     \<Rightarrow> (pyval \<times> pyval \<times> string \<times> string \<times> real) list \<times> py_error option" where
  "output_cell L search_term number_of_articles sorted_arts =
     py_for (display_article L search_term) (py_slice_upto sorted_arts number_of_articles) []"

section \<open>simple-search-engine-with-bm25\<close>

type_synonym token = string






text \<open>
  \<^verbatim>\<open>BM25Okapi(tokenized_docs).get_scores(query)\<close> of the rank-bm25 library: the array
  of scores, or the exception it raises.
\<close>

type_synonym bm25_lib = "token list list \<Rightarrow> token list \<Rightarrow> py_error + real list"

text \<open>
  \<^verbatim>\<open>
  def get_bm25_scores(tokenized_docs, query):
      bm25 = BM25Okapi(tokenized_docs)
      scores = bm25.get_scores(query)
      scores = [(i, v) for i, v in enumerate(scores)]
      scores.sort(key=lambda x: x[1], reverse=True)
      return scores
  \<close>
\<close>

definition get_bm25_scores ::
  "bm25_lib \<Rightarrow> token list list \<Rightarrow> token list \<Rightarrow> py_error + (nat \<times> real) list" where
  "get_bm25_scores BM25Okapi tokenized_docs query =
     (case BM25Okapi tokenized_docs query of
        Inl e \<Rightarrow> Inl e
      | Inr scores \<Rightarrow>
          (let scores = enumerate 0 scores;
               scores = py_sort_reverse snd scores
           in Inr scores))"

text \<open>
  \<^verbatim>\<open>np.array(scores)[:num_results, ...]\<close>: the first rows of the array of pairs. The
  array of an empty list has one dimension only, and indexing it with two indices
  raises \<^verbatim>\<open>IndexError\<close>.
\<close>

definition np_rows :: "(nat \<times> real) list \<Rightarrow> int \<Rightarrow> py_error + (nat \<times> real) list" where
  "np_rows scores num_results =
     (if scores = [] then Inl IndexError else Inr (py_slice_upto scores num_results))"

text \<open>
  \<^verbatim>\<open>
  idx = np.array(scores)[:num_results, 0].astype(int)
  final_scores = np.array(scores)[:num_results, 1]
  documents = [feed.entries[i] for i in idx]
  \<close>
\<close>

definition select_documents ::
  "(nat \<times> real) list \<Rightarrow> int \<Rightarrow> entry list \<Rightarrow> py_error + (entry list \<times> real list)" where
  "select_documents scores num_results feed_entries =
     (case np_rows scores num_results of Inl e \<Rightarrow> Inl e | Inr rows0 \<Rightarrow>
      let idx = map fst rows0 in
      case np_rows scores num_results of Inl e \<Rightarrow> Inl e | Inr rows1 \<Rightarrow>
      let final_scores = map snd rows1 in
      case py_comprehension (py_getitem feed_entries) idx of Inl e \<Rightarrow> Inl e | Inr documents \<Rightarrow>
      Inr (documents, final_scores))"

text \<open>
  The output loop. What \<^verbatim>\<open>print\<close> writes is modelled by the values the format
  string receives: title, link, summary and score.
  \<^verbatim>\<open>
  for doc, score in zip(documents, final_scores):
      print(f"{doc.title}\n{doc.link}\n\n{doc.summary}\n[Score: {str(round(score, 4))}]\n\n")
  \<close>
\<close>

definition print_document :: "entry \<times> real \<Rightarrow> py_error + (string \<times> string \<times> string \<times> real)" where
  "print_document p =
     (case p of (doc, score) \<Rightarrow>
      case py_getattr ''title'' (title doc) of Inl e \<Rightarrow> Inl e | Inr t \<Rightarrow>
      case py_getattr ''link'' (link doc) of Inl e \<Rightarrow> Inl e | Inr l \<Rightarrow>
      case py_getattr ''summary'' (summary doc) of Inl e \<Rightarrow> Inl e | Inr s \<Rightarrow>
      Inr (t, l, s, score))"

definition print_documents ::
  "entry list \<Rightarrow> real list \<Rightarrow> (string \<times> string \<times> string \<times> real) list \<times> py_error option" where
  "print_documents documents final_scores = py_for print_document (zip documents final_scores) []"

section \<open>simple-semantic-search-engine-with-transformers\<close>

text \<open>
  \<open>encode\<close> is \<^verbatim>\<open>model.encode\<close> of sentence-transformers, \<open>cosine_similarity\<close> the
  function of scikit-learn, \<open>argsort\<close> the method of numpy arrays.
  \<^verbatim>\<open>
  encoded_text = np.array(model.encode(input_text))
  encoded_query = np.array(model.encode([search_term]))
  results = cosine_similarity(encoded_query, encoded_text)[0]
  num_results = results.argsort()[-num_results:][::-1]
  scores = results[num_results]
  sentences = [input_text[idx] for idx in num_results]
  \<close>
  and the output loop, which displays each sentence with its score:
  \<^verbatim>\<open>
  for sentence, score in zip(sentences, scores):
      printmd(f'* {sentence} (score: {score:<.4f})')
  \<close>
\<close>

definition search_results ::
  "(string list \<Rightarrow> py_error + 'v list) \<Rightarrow> ('v list \<Rightarrow> 'v list \<Rightarrow> py_error + real list list)
     \<Rightarrow> (real list \<Rightarrow> nat list) \<Rightarrow> string list \<Rightarrow> string \<Rightarrow> int
     \<Rightarrow> py_error + (string \<times> real) list" where
  "search_results encode cosine_similarity argsort input_text search_term num_results =
     (case encode input_text of Inl e \<Rightarrow> Inl e | Inr encoded_text \<Rightarrow>
      case encode [search_term] of Inl e \<Rightarrow> Inl e | Inr encoded_query \<Rightarrow>
      case cosine_similarity encoded_query encoded_text of Inl e \<Rightarrow> Inl e | Inr similarities \<Rightarrow>
      case py_getitem similarities 0 of Inl e \<Rightarrow> Inl e | Inr results \<Rightarrow>
      let num_results = rev (py_slice_from (argsort results) (- num_results)) in
      case py_comprehension (py_getitem results) num_results of Inl e \<Rightarrow> Inl e | Inr scores \<Rightarrow>
      case py_comprehension (py_getitem input_text) num_results of Inl e \<Rightarrow> Inl e | Inr sentences \<Rightarrow>
      Inr (zip sentences scores))"



section \<open>Example inputs\<close>

text \<open>
  Libraries for the examples: the clock stands at 1000000 seconds, a page is its own
  address and has one paragraph, the site \<open>down\<close> cannot be reached, the classifier
  scores by the length of the text, and the summary of a text is the text.
\<close>

definition demo_libs :: "string libs" where
  "demo_libs =
     \<lparr>time_time = (\<lambda>k. 1000000),
      time_mktime = (\<lambda>p. Inr (real_of_int (sum_list p))),
      requests_get = (\<lambda>url. if url = ''down'' then Inl (LibraryError ''ConnectionError'') else Inr url),
      find_all_text = (\<lambda>h. Inr [\<lparr>node_text = h, parent_name = ''p'', is_comment = False\<rparr>,
                                 \<lparr>node_text = ''menu'', parent_name = ''div'', is_comment = False\<rparr>]),
      zero_shot = (\<lambda>s t. Inr \<lparr>zs_sequence = s, zs_labels = [t], zs_scores = [real (length s) / 10]\<rparr>),
      summarization = (\<lambda>s. Inr [[(''summary_text'', s)]])\<rparr>"

definition demo_entry :: "string \<Rightarrow> string \<Rightarrow> int \<Rightarrow> entry" where
  "demo_entry t url secs =
     \<lparr>title = Some t, link = Some url, summary = Some t, published_parsed = Some [secs]\<rparr>"

definition demo_article :: "string \<Rightarrow> string \<Rightarrow> int \<Rightarrow> real \<Rightarrow> article" where
  "demo_article t url secs r =
     [(''title'', Str t), (''link'', Str url), (''src_text'', Str url),
      (''published'', Time [secs]), (''relevancy'', Num r)]"


text \<open>An \<^verbatim>\<open>argsort\<close> for the examples: the indices in ascending order of their values.\<close>

definition demo_argsort :: "real list \<Rightarrow> nat list" where
  "demo_argsort results = sort_key (\<lambda>i. results ! i) [0..<length results]"

section \<open>Properties of the Python notions\<close>

lemma py_slice_upto_nonneg: "0 \<le> n \<Longrightarrow> py_slice_upto xs n = take (nat n) xs"
  by (simp add: py_slice_upto_def)

lemma py_comprehension_Inr_iff:
  "py_comprehension f xs = Inr ys \<longleftrightarrow> map f xs = map Inr ys"
proof (induction xs arbitrary: ys)
  case Nil
  then show ?case by auto
next
  case (Cons x xs)
  show ?case
  proof (cases "f x")
    case (Inl e)
    then show ?thesis by (cases ys) auto
  next
    case (Inr y)
    show ?thesis
    proof (cases "py_comprehension f xs")
      case (Inl e)
      with Inr Cons.IH show ?thesis by (cases ys) auto
    next
      case r: (Inr zs)
      with Inr Cons.IH [of zs] Cons.IH show ?thesis by (cases ys) auto
    qed
  qed
qed

lemma py_comprehension_getitem:
  assumes "\<forall>i\<in>set idx. i < length xs"
  shows "py_comprehension (py_getitem xs) idx = Inr (map (\<lambda>i. xs ! i) idx)"
  using assms by (simp add: py_comprehension_Inr_iff py_getitem_def)

lemma py_for_success:
  "map body xs = map Inr ys \<Longrightarrow> py_for body xs out = (out @ ys, None)"
proof (induction xs arbitrary: ys out)
  case Nil
  then show ?case by simp
next
  case (Cons x xs)
  then obtain y ys' where ys: "ys = y # ys'" "body x = Inr y" "map body xs = map Inr ys'"
    by (cases ys) auto
  with Cons.IH [of ys' "out @ [y]"] show ?case by simp
qed


lemma py_for_completes:
  "py_for body xs out = (res, None) \<Longrightarrow> \<exists>ys. res = out @ ys \<and> map body xs = map Inr ys"
proof (induction xs arbitrary: out)
  case Nil
  then show ?case by simp
next
  case (Cons x xs)
  show ?case
  proof (cases "body x")
    case (Inl e)
    with Cons.prems show ?thesis by simp
  next
    case (Inr y)
    with Cons.prems have "py_for body xs (out @ [y]) = (res, None)" by simp
    from Cons.IH [OF this] obtain ys where "res = (out @ [y]) @ ys" "map body xs = map Inr ys"
      by blast
    with Inr have "res = out @ (y # ys) \<and> map body (x # xs) = map Inr (y # ys)" by simp
    then show ?thesis by blast
  qed
qed

lemma all_Inr_map:
  "\<forall>x\<in>set xs. \<exists>y. f x = Inr y \<Longrightarrow> \<exists>ys. map f xs = map Inr ys"
proof (induction xs)
  case Nil
  then show ?case by simp
next
  case (Cons x xs)
  then obtain y ys where "f x = Inr y" "map f xs = map Inr ys"
    by auto
  then have "map f (x # xs) = map Inr (y # ys)" by simp
  then show ?case by blast
qed


section \<open>Properties of the descending stable sort\<close>

lemma mset_py_sort_reverse: "mset (py_sort_reverse key xs) = mset xs"
  by (simp add: py_sort_reverse_def)

lemma set_py_sort_reverse: "set (py_sort_reverse key xs) = set xs"
  by (simp add: py_sort_reverse_def)

lemma length_py_sort_reverse: "length (py_sort_reverse key xs) = length xs"
  by (simp add: py_sort_reverse_def)

lemma py_sort_reverse_descending:
  "sorted_wrt (\<lambda>a b. key b \<le> key a) (py_sort_reverse key xs)"
proof -
  have "sorted (map key (sort_key key (rev xs)))"
    by simp
  then have "sorted_wrt (\<lambda>a b. key a \<le> key b) (sort_key key (rev xs))"
    by (simp add: sorted_wrt_map)
  then show ?thesis
    by (simp add: py_sort_reverse_def sorted_wrt_rev)
qed

lemma py_sort_reverse_stable:
  "filter (\<lambda>y. key y = k) (py_sort_reverse key xs) = filter (\<lambda>y. key y = k) xs"
proof -
  have "filter (\<lambda>y. key y = k) (py_sort_reverse key xs)
          = rev (filter (\<lambda>y. key y = k) (sort_key key (rev xs)))"
    by (simp add: py_sort_reverse_def rev_filter)
  also have "\<dots> = rev (filter (\<lambda>y. key y = k) (rev xs))"
    by (simp only: sort_key_stable)
  also have "\<dots> = filter (\<lambda>y. key y = k) xs"
    by (simp add: rev_filter)
  finally show ?thesis .
qed

text \<open>
  A list that is descending in its keys, and whose elements of each single key are in
  the order \<open>S\<close>, is ordered by key first and by \<open>S\<close> among equal keys.
\<close>

lemma descending_and_groupwise:
  fixes key :: "'a \<Rightarrow> 'k::linorder"
  assumes "sorted_wrt (\<lambda>a b. key b \<le> key a) r"
    and "\<And>k. sorted_wrt S (filter (\<lambda>y. key y = k) r)"
  shows "sorted_wrt (\<lambda>a b. key b < key a \<or> (key a = key b \<and> S a b)) r"
  using assms
proof (induction r)
  case Nil
  then show ?case by simp
next
  case (Cons x r)
  have tail: "sorted_wrt (\<lambda>a b. key b < key a \<or> (key a = key b \<and> S a b)) r"
  proof (rule Cons.IH)
    show "sorted_wrt (\<lambda>a b. key b \<le> key a) r"
      using Cons.prems(1) by simp
    fix k
    show "sorted_wrt S (filter (\<lambda>y. key y = k) r)"
      using Cons.prems(2) [of k] by (simp split: if_splits)
  qed
  have head: "key y < key x \<or> (key x = key y \<and> S x y)" if "y \<in> set r" for y
  proof (cases "key y = key x")
    case True
    have "sorted_wrt S (x # filter (\<lambda>z. key z = key x) r)"
      using Cons.prems(2) [of "key x"] by simp
    with that True show ?thesis by auto
  next
    case False
    moreover have "key y \<le> key x"
      using Cons.prems(1) that by simp
    ultimately show ?thesis by (simp add: less_le)
  qed
  from tail head show ?case by simp
qed

lemma py_sort_reverse_ties:
  fixes key :: "'a \<Rightarrow> 'k::linorder"
  assumes "sorted_wrt S xs"
  shows "sorted_wrt (\<lambda>a b. key b < key a \<or> (key a = key b \<and> S a b))
           (py_sort_reverse key xs)"
proof (rule descending_and_groupwise)
  show "sorted_wrt (\<lambda>a b. key b \<le> key a) (py_sort_reverse key xs)"
    by (rule py_sort_reverse_descending)
  fix k
  show "sorted_wrt S (filter (\<lambda>y. key y = k) (py_sort_reverse key xs))"
    using assms by (simp add: py_sort_reverse_stable sorted_wrt_filter)
qed

lemma enumerate_as_map: "enumerate 0 xs = map (\<lambda>i. (i, xs ! i)) [0..<length xs]"
  by (rule nth_equalityI) (simp_all add: nth_enumerate_eq)

lemma enumerate_fst_increasing: "sorted_wrt (\<lambda>a b. fst a < fst b) (enumerate n xs)"
proof -
  have "sorted_wrt (<) (map fst (enumerate n xs))"
    by (simp add: sorted_wrt_upt del: upt_Suc)
  then show ?thesis
    by (simp only: sorted_wrt_map)
qed

section \<open>The BM25 ranking\<close>

text \<open>
  C1. Whenever the BM25 library returns its array of scores, one per tokenized document,
  \<open>get_bm25_scores\<close> returns a permutation of the pairs \<open>(i, s\<^sub>i)\<close> for
  \<open>i = 0, \<dots>, len(tokenized_docs) - 1\<close>, sorted in non-increasing order of score.
\<close>

theorem get_bm25_scores_sorted_permutation:
  assumes "BM25Okapi tokenized_docs query = Inr scores"
    and "length scores = length tokenized_docs"
  shows "\<exists>r. get_bm25_scores BM25Okapi tokenized_docs query = Inr r
           \<and> mset r = mset (map (\<lambda>i. (i, scores ! i)) [0..<length tokenized_docs])
           \<and> sorted_wrt (\<lambda>a b. snd b \<le> snd a) r"
proof -
  let ?r = "py_sort_reverse snd (enumerate 0 scores)"
  have "get_bm25_scores BM25Okapi tokenized_docs query = Inr ?r"
    using assms(1) by (simp add: get_bm25_scores_def)
  moreover have "mset ?r = mset (map (\<lambda>i. (i, scores ! i)) [0..<length tokenized_docs])"
    using assms(2) by (simp only: mset_py_sort_reverse enumerate_as_map)
  moreover have "sorted_wrt (\<lambda>a b. snd b \<le> snd a) ?r"
    by (rule py_sort_reverse_descending)
  ultimately show ?thesis by blast
qed

theorem get_bm25_scores_sorted_permutation_witness:
  "(\<lambda>_ _. Inr [1, 3, 2]) [[''a''], [''b''], [''c'']] [''a''] = (Inr [1, 3, 2] :: py_error + real list)
   \<and> length [1, 3, 2 :: real] = length [[''a''], [''b''], [''c'']]
   \<and> (\<exists>r. get_bm25_scores (\<lambda>_ _. Inr [1, 3, 2]) [[''a''], [''b''], [''c'']] [''a''] = Inr r
           \<and> mset r = mset (map (\<lambda>i. (i, [1, 3, 2 :: real] ! i)) [0..<length [[''a''], [''b''], [''c'']]])
           \<and> sorted_wrt (\<lambda>a b. snd b \<le> snd a) r)"
  using get_bm25_scores_sorted_permutation
    [of "\<lambda>_ _. Inr [1, 3, 2]" "[[''a''], [''b''], [''c'']]" "[''a'']" "[1, 3, 2]"]
  by simp

text \<open>
  C10. Whenever the BM25 library returns its array of scores, one per tokenized document,
  and two documents \<open>i < j\<close> have equal scores, the pair of \<open>i\<close> stands before the pair
  of \<open>j\<close> in the list \<open>get_bm25_scores\<close> returns; and the returned list is the same
  for every corpus and query to which the library gives the same array of scores.
\<close>

theorem get_bm25_scores_ties_by_index:
  assumes "BM25Okapi tokenized_docs query = Inr scores"
    and "length scores = length tokenized_docs"
  shows "\<exists>r. get_bm25_scores BM25Okapi tokenized_docs query = Inr r
           \<and> (\<forall>i j. i < j \<and> j < length tokenized_docs \<and> scores ! i = scores ! j \<longrightarrow>
                 (\<exists>a b. a < b \<and> b < length r
                    \<and> r ! a = (i, scores ! i) \<and> r ! b = (j, scores ! j)))
           \<and> (\<forall>lib docs q. lib docs q = Inr scores \<longrightarrow> get_bm25_scores lib docs q = Inr r)"
proof -
  let ?r = "py_sort_reverse snd (enumerate 0 scores)"
  let ?P = "\<lambda>a b :: nat \<times> real. snd b < snd a \<or> (snd a = snd b \<and> fst a < fst b)"
  have ret: "get_bm25_scores BM25Okapi tokenized_docs query = Inr ?r"
    using assms(1) by (simp add: get_bm25_scores_def)
  have same: "get_bm25_scores lib docs q = Inr ?r" if "lib docs q = Inr scores" for lib docs q
    using that by (simp add: get_bm25_scores_def)
  have lex: "sorted_wrt ?P ?r"
    by (rule py_sort_reverse_ties) (rule enumerate_fst_increasing)
  have ties: "\<exists>a b. a < b \<and> b < length ?r \<and> ?r ! a = (i, scores ! i) \<and> ?r ! b = (j, scores ! j)"
    if "i < j" "j < length tokenized_docs" "scores ! i = scores ! j" for i j
  proof -
    have "(i, scores ! i) \<in> set ?r" and "(j, scores ! j) \<in> set ?r"
      using that(1,2) assms(2) by (simp_all add: set_py_sort_reverse in_set_enumerate_eq)
    then obtain a b where a: "a < length ?r" "?r ! a = (i, scores ! i)"
      and b: "b < length ?r" "?r ! b = (j, scores ! j)"
      by (auto simp: in_set_conv_nth)
    have "a \<noteq> b"
      using a(2) b(2) that(1) by auto
    moreover have "\<not> b < a"
    proof
      assume "b < a"
      then have "?P (?r ! b) (?r ! a)"
        using lex a(1) by (rule_tac sorted_wrt_nth_less)
      then show False
        using a(2) b(2) that(1,3) by simp
    qed
    ultimately have "a < b" by simp
    with a b show ?thesis by blast
  qed
  from ret ties same show ?thesis by blast
qed

theorem get_bm25_scores_ties_by_index_witness:
  "(\<lambda>_ _. Inr [2, 1, 2]) [[''a''], [''b''], [''a'']] [''a''] = (Inr [2, 1, 2] :: py_error + real list)
   \<and> length [2, 1, 2 :: real] = length [[''a''], [''b''], [''a'']]
   \<and> (\<exists>r. get_bm25_scores (\<lambda>_ _. Inr [2, 1, 2]) [[''a''], [''b''], [''a'']] [''a''] = Inr r
           \<and> (\<forall>i j. i < j \<and> j < length [[''a''], [''b''], [''a'']]
                    \<and> [2, 1, 2 :: real] ! i = [2, 1, 2] ! j \<longrightarrow>
                 (\<exists>a b. a < b \<and> b < length r
                    \<and> r ! a = (i, [2, 1, 2] ! i) \<and> r ! b = (j, [2, 1, 2] ! j)))
           \<and> (\<forall>lib docs q. lib docs q = Inr [2, 1, 2] \<longrightarrow> get_bm25_scores lib docs q = Inr r))"
  using get_bm25_scores_ties_by_index
    [of "\<lambda>_ _. Inr [2, 1, 2]" "[[''a''], [''b''], [''a'']]" "[''a'']" "[2, 1, 2]"]
  by simp

section \<open>The selection of the best documents\<close>

lemma ranked_length: "length (py_sort_reverse snd (enumerate 0 raw)) = length raw"
  by (simp add: length_py_sort_reverse)

lemma ranked_nth:
  assumes "j < length raw"
  shows "fst (py_sort_reverse snd (enumerate 0 raw) ! j) < length raw
         \<and> snd (py_sort_reverse snd (enumerate 0 raw) ! j)
             = raw ! fst (py_sort_reverse snd (enumerate 0 raw) ! j)"
proof -
  let ?r = "py_sort_reverse snd (enumerate 0 raw)"
  from assms have "?r ! j \<in> set ?r"
    by (simp add: ranked_length)
  then have mem: "?r ! j \<in> set (enumerate 0 raw)"
    by (simp add: set_py_sort_reverse)
  obtain i s where p: "?r ! j = (i, s)"
    by (cases "?r ! j")
  from mem show ?thesis
    unfolding p by (simp add: in_set_enumerate_eq)
qed

lemma ranked_distinct: "distinct (map fst (py_sort_reverse snd (enumerate 0 raw)))"
proof -
  have "mset (py_sort_reverse snd (enumerate 0 raw)) = mset (enumerate 0 raw)"
    by (rule mset_py_sort_reverse)
  then have "image_mset fst (mset (py_sort_reverse snd (enumerate 0 raw)))
               = image_mset fst (mset (enumerate 0 raw))"
    by (rule arg_cong)
  then have "mset (map fst (py_sort_reverse snd (enumerate 0 raw)))
               = mset (map fst (enumerate 0 raw))"
    by (simp only: mset_map)
  moreover have "distinct (map fst (enumerate 0 raw))"
    by (simp only: map_fst_enumerate distinct_upt)
  ultimately show ?thesis
    by (metis mset_eq_imp_distinct_iff)
qed

lemma ranked_position:
  assumes "i < length raw"
  shows "\<exists>k<length raw. py_sort_reverse snd (enumerate 0 raw) ! k = (i, raw ! i)"
proof -
  let ?r = "py_sort_reverse snd (enumerate 0 raw)"
  from assms have "(i, raw ! i) \<in> set ?r"
    by (simp add: set_py_sort_reverse in_set_enumerate_eq)
  then show ?thesis
    by (simp add: in_set_conv_nth ranked_length)
qed

lemma select_documents_Inr:
  assumes "scores \<noteq> []" and "0 \<le> num_results"
    and "\<forall>p\<in>set (take (nat num_results) scores). fst p < length feed_entries"
  shows "select_documents scores num_results feed_entries
           = Inr (map (\<lambda>p. feed_entries ! fst p) (take (nat num_results) scores),
                  map snd (take (nat num_results) scores))"
proof -
  have "py_comprehension (py_getitem feed_entries) (map fst (take (nat num_results) scores))
          = Inr (map (\<lambda>i. feed_entries ! i) (map fst (take (nat num_results) scores)))"
    by (rule py_comprehension_getitem) (use assms(3) in auto)
  then show ?thesis
    using assms(1,2)
    by (simp add: select_documents_def np_rows_def py_slice_upto_nonneg comp_def)
qed

text \<open>
  C3. Let the BM25 library return one score per tokenized document, let there be as
  many tokenized documents as feed entries (at least one), and let
  \<open>0 \<le> num_results \<le> len(feed.entries)\<close>. Then the selection step returns \<open>num_results\<close>
  documents and scores with \<open>documents[j] = feed.entries[i\<^sub>j]\<close> and
  \<open>final_scores[j] = s\<^sub>j\<close>, where \<open>(i\<^sub>j, s\<^sub>j)\<close> is the \<open>j\<close>-th pair of the list
  \<open>get_bm25_scores\<close> returned and \<open>s\<^sub>j\<close> is the score of entry \<open>i\<^sub>j\<close>. The scores are in
  non-increasing order, the selected entries are distinct, no entry left out has a
  higher score than a selected one, and the output loop, when it ends without an
  exception, has printed the selected entries with these scores in this order.
\<close>

theorem select_documents_top_scores:
  assumes "BM25Okapi tokenized_docs query = Inr raw"
    and "length raw = length tokenized_docs"
    and "length tokenized_docs = length feed_entries"
    and "0 \<le> num_results"
    and "num_results \<le> int (length feed_entries)"
    and "feed_entries \<noteq> []"
  shows "\<exists>scores documents final_scores.
           get_bm25_scores BM25Okapi tokenized_docs query = Inr scores
           \<and> select_documents scores num_results feed_entries = Inr (documents, final_scores)
           \<and> length documents = nat num_results
           \<and> length final_scores = nat num_results
           \<and> (\<forall>j<nat num_results.
                 fst (scores ! j) < length feed_entries
                 \<and> documents ! j = feed_entries ! fst (scores ! j)
                 \<and> final_scores ! j = snd (scores ! j)
                 \<and> final_scores ! j = raw ! fst (scores ! j))
           \<and> sorted_wrt (\<lambda>x y. y \<le> x) final_scores
           \<and> distinct (map fst (take (nat num_results) scores))
           \<and> (\<forall>i<length feed_entries.
                 i \<notin> set (map fst (take (nat num_results) scores)) \<longrightarrow>
                 (\<forall>j<nat num_results. raw ! i \<le> final_scores ! j))
           \<and> (\<forall>shown. print_documents documents final_scores = (shown, None) \<longrightarrow>
                 length shown = nat num_results
                 \<and> (\<forall>j<nat num_results.
                       print_document (feed_entries ! fst (scores ! j), snd (scores ! j))
                         = Inr (shown ! j)))"
proof -
  let ?scores = "py_sort_reverse snd (enumerate 0 raw)"
  let ?n = "nat num_results"
  let ?rows = "take ?n ?scores"
  let ?documents = "map (\<lambda>p. feed_entries ! fst p) ?rows"
  let ?final = "map snd ?rows"
  have len: "length raw = length feed_entries"
    using assms(2,3) by simp
  have slen: "length ?scores = length feed_entries"
    using len by (simp add: ranked_length)
  have n: "?n \<le> length feed_entries"
    using assms(4,5) by simp
  have ret: "get_bm25_scores BM25Okapi tokenized_docs query = Inr ?scores"
    using assms(1) by (simp add: get_bm25_scores_def)
  have desc: "sorted_wrt (\<lambda>a b. snd b \<le> snd a) ?scores"
    by (rule py_sort_reverse_descending)
  have nonempty: "?scores \<noteq> []"
    using slen assms(6) by auto
  have in_range: "\<forall>p\<in>set ?rows. fst p < length feed_entries"
  proof
    fix p
    assume "p \<in> set ?rows"
    then have "p \<in> set ?scores"
      by (rule in_set_takeD)
    then obtain k where "k < length ?scores" "?scores ! k = p"
      by (auto simp: in_set_conv_nth)
    with ranked_nth [of k raw] slen len show "fst p < length feed_entries"
      by auto
  qed
  have sel: "select_documents ?scores num_results feed_entries = Inr (?documents, ?final)"
    by (rule select_documents_Inr [OF nonempty assms(4) in_range])
  have ld: "length ?documents = ?n" and lf: "length ?final = ?n"
    using n slen by simp_all
  have pairs: "fst (?scores ! j) < length feed_entries
               \<and> ?documents ! j = feed_entries ! fst (?scores ! j)
               \<and> ?final ! j = snd (?scores ! j)
               \<and> ?final ! j = raw ! fst (?scores ! j)"
    if "j < ?n" for j
  proof -
    from that n len have "j < length raw" by simp
    from ranked_nth [OF this] that n slen len show ?thesis
      by simp
  qed
  have fdesc: "sorted_wrt (\<lambda>x y. y \<le> x) ?final"
  proof -
    have "sorted_wrt (\<lambda>a b. snd b \<le> snd a) ?rows"
      using desc by (rule sorted_wrt_take)
    then show ?thesis
      by (simp add: sorted_wrt_map)
  qed
  have dist: "distinct (map fst ?rows)"
    using ranked_distinct [of raw] by (simp add: take_map [symmetric] distinct_take)
  have top: "raw ! i \<le> ?final ! j"
    if i: "i < length feed_entries" and out: "i \<notin> set (map fst ?rows)" and j: "j < ?n" for i j
  proof -
    from i len have "i < length raw" by simp
    from ranked_position [OF this] obtain k where
      k: "k < length raw" "?scores ! k = (i, raw ! i)" by blast
    have "\<not> k < ?n"
    proof
      assume "k < ?n"
      then have "?rows ! k = (i, raw ! i)"
        using k(2) by simp
      moreover have "k < length ?rows"
        using \<open>k < ?n\<close> n slen by simp
      ultimately have "(i, raw ! i) \<in> set ?rows"
        by (metis nth_mem)
      then have "i \<in> set (map fst ?rows)"
        by force
      with out show False by simp
    qed
    with j have "j < k" by simp
    moreover have "k < length ?scores"
      using k(1) by (simp add: ranked_length)
    ultimately have "snd (?scores ! k) \<le> snd (?scores ! j)"
      using desc by (simp add: sorted_wrt_iff_nth_less)
    with k(2) j n slen show ?thesis by simp
  qed
  have printed: "length shown = ?n
                 \<and> (\<forall>j<?n. print_document (feed_entries ! fst (?scores ! j), snd (?scores ! j))
                             = Inr (shown ! j))"
    if run: "print_documents ?documents ?final = (shown, None)" for shown
  proof -
    from run py_for_completes
    have body: "map print_document (zip ?documents ?final) = map Inr shown"
      unfolding print_documents_def by fastforce
    then have "length shown = length (zip ?documents ?final)"
      by (metis length_map)
    with ld lf have ls: "length shown = ?n" by simp
    have "print_document (feed_entries ! fst (?scores ! j), snd (?scores ! j)) = Inr (shown ! j)"
      if j: "j < ?n" for j
    proof -
      have "map print_document (zip ?documents ?final) ! j = map Inr shown ! j"
        by (simp only: body)
      moreover have "zip ?documents ?final ! j = (?documents ! j, ?final ! j)"
        using j ld lf by (simp only: nth_zip)
      ultimately have "print_document (?documents ! j, ?final ! j) = Inr (shown ! j)"
        using j ls ld lf by simp
      with pairs [OF j] show ?thesis by simp
    qed
    with ls show ?thesis by blast
  qed
  from ret sel ld lf pairs fdesc dist top printed show ?thesis
    by blast
qed

theorem select_documents_top_scores_witness:
  "(\<lambda>_ _. Inr [1, 3, 2]) [[''a''], [''b''], [''c'']] [''a''] = (Inr [1, 3, 2] :: py_error + real list)
   \<and> length [1, 3, 2 :: real] = length [[''a''], [''b''], [''c'']]
   \<and> length [[''a''], [''b''], [''c'']]
       = length [demo_entry ''A'' ''a'' 1, demo_entry ''B'' ''b'' 2, demo_entry ''C'' ''c'' 3]
   \<and> (0 :: int) \<le> 2
   \<and> 2 \<le> int (length [demo_entry ''A'' ''a'' 1, demo_entry ''B'' ''b'' 2, demo_entry ''C'' ''c'' 3])
   \<and> [demo_entry ''A'' ''a'' 1, demo_entry ''B'' ''b'' 2, demo_entry ''C'' ''c'' 3] \<noteq> []
   \<and> get_bm25_scores (\<lambda>_ _. Inr [1, 3, 2]) [[''a''], [''b''], [''c'']] [''a'']
       = Inr [(1, 3), (2, 2), (0, 1)]
   \<and> select_documents [(1, 3), (2, 2), (0, 1)] 2
        [demo_entry ''A'' ''a'' 1, demo_entry ''B'' ''b'' 2, demo_entry ''C'' ''c'' 3]
       = Inr ([demo_entry ''B'' ''b'' 2, demo_entry ''C'' ''c'' 3], [3, 2])
   \<and> print_documents [demo_entry ''B'' ''b'' 2, demo_entry ''C'' ''c'' 3] [3, 2]
       = ([(''B'', ''b'', ''B'', 3), (''C'', ''c'', ''C'', 2)], None)
   \<and> length [(''B'', ''b'', ''B'', 3 :: real), (''C'', ''c'', ''C'', 2)] = nat 2
   \<and> [1, 3, 2 :: real] ! 0 \<le> [3, 2] ! 0
   \<and> [1, 3, 2 :: real] ! 0 \<le> [3, 2] ! 1
   \<and> sorted_wrt (\<lambda>x y. y \<le> x) [3, 2 :: real]"
proof -
  let ?lib = "(\<lambda>_ _. Inr [1, 3, 2]) :: bm25_lib"
  let ?docs = "[[''a''], [''b''], [''c'']]"
  let ?entries = "[demo_entry ''A'' ''a'' 1, demo_entry ''B'' ''b'' 2, demo_entry ''C'' ''c'' 3]"
  let ?shown = "[(''B'', ''b'', ''B'', 3 :: real), (''C'', ''c'', ''C'', 2)]"
  have h1: "?lib ?docs [''a''] = Inr [1, 3, 2]" by simp
  have h2: "length [1, 3, 2 :: real] = length ?docs" by simp
  have h3: "length ?docs = length ?entries" by simp
  have h4: "(0 :: int) \<le> 2" by simp
  have h5: "2 \<le> int (length ?entries)" by simp
  have h6: "?entries \<noteq> []" by simp
  have ranked: "get_bm25_scores ?lib ?docs [''a''] = Inr [(1, 3), (2, 2), (0, 1)]"
    by (simp add: get_bm25_scores_def py_sort_reverse_def enumerate_eq_zip upt_rec)
  have selected: "select_documents [(1, 3), (2, 2), (0, 1)] 2 ?entries
                    = Inr ([demo_entry ''B'' ''b'' 2, demo_entry ''C'' ''c'' 3], [3, 2])"
    by (simp add: select_documents_def np_rows_def py_slice_upto_def py_getitem_def
          numeral_2_eq_2)
  have printed: "print_documents [demo_entry ''B'' ''b'' 2, demo_entry ''C'' ''c'' 3] [3, 2]
                   = (?shown, None)"
    by (simp add: print_documents_def print_document_def py_getattr_def demo_entry_def)
  from select_documents_top_scores [OF h1 h2 h3 h4 h5 h6]
  obtain scores documents final_scores where
    r: "get_bm25_scores ?lib ?docs [''a''] = Inr scores"
    and s: "select_documents scores 2 ?entries = Inr (documents, final_scores)"
    and desc: "sorted_wrt (\<lambda>x y. y \<le> x) final_scores"
    and top: "\<forall>i<length ?entries. i \<notin> set (map fst (take (nat 2) scores)) \<longrightarrow>
                (\<forall>j<nat 2. [1, 3, 2 :: real] ! i \<le> final_scores ! j)"
    and out: "\<forall>shown. print_documents documents final_scores = (shown, None) \<longrightarrow>
                length shown = nat 2"
    by blast
  from r ranked have scores: "scores = [(1, 3), (2, 2), (0, 1)]" by simp
  with s selected have sel: "documents = [demo_entry ''B'' ''b'' 2, demo_entry ''C'' ''c'' 3]"
    "final_scores = [3, 2]"
    by simp_all
  from out printed sel have n: "length ?shown = nat 2" by blast
  have "(0 :: nat) < length ?entries" "0 \<notin> set (map fst (take (nat 2) scores))"
    by (simp_all add: scores numeral_2_eq_2)
  with top have "\<forall>j<nat 2. [1, 3, 2 :: real] ! 0 \<le> final_scores ! j" by blast
  then have left_out: "[1, 3, 2 :: real] ! 0 \<le> [3, 2] ! 0" "[1, 3, 2 :: real] ! 0 \<le> [3, 2] ! 1"
    unfolding sel by simp_all
  from desc sel have d: "sorted_wrt (\<lambda>x y. y \<le> x) [3, 2 :: real]" by simp
  from h1 h2 h3 h4 h5 h6 ranked selected printed n left_out d show ?thesis
    by (intro conjI)
qed


section \<open>The tokenized documents\<close>











section \<open>The visible text of a page\<close>

text \<open>
  C9. \<open>tag_visible\<close> returns \<open>True\<close> exactly when the parent tag of the element is
  \<open>p\<close>; whether the element is a comment does not change the result; and
  \<open>text_from_html\<close> joins the stripped text of exactly the text nodes, comments
  included, whose parent is a \<open>p\<close> element.
\<close>

theorem tag_visible_iff_parent_is_p:
  "tag_visible element = (parent_name element = ''p'')
   \<and> tag_visible (element\<lparr>is_comment := b\<rparr>) = tag_visible element
   \<and> text_from_html find_texts html =
       (case find_texts html of
          Inl e \<Rightarrow> Inl e
        | Inr texts \<Rightarrow>
            Inr (py_join '' '' (map (\<lambda>t. py_strip (node_text t))
                   (filter (\<lambda>t. parent_name t = ''p'') texts))))"
proof -
  have iff: "tag_visible t = (parent_name t = ''p'')" for t :: element
    by (simp add: tag_visible_def)
  have "filter tag_visible texts = filter (\<lambda>t. parent_name t = ''p'') texts" for texts
    by (rule filter_cong) (simp_all add: iff)
  then show ?thesis
    by (simp add: iff text_from_html_def split: sum.split)
qed

theorem tag_visible_iff_parent_is_p_witness:
  "tag_visible \<lparr>node_text = ''hidden'', parent_name = ''p'', is_comment = True\<rparr>
     = (parent_name \<lparr>node_text = ''hidden'', parent_name = ''p'', is_comment = True\<rparr> = ''p'')
   \<and> tag_visible \<lparr>node_text = ''hidden'', parent_name = ''p'', is_comment = True\<rparr> = True
   \<and> tag_visible \<lparr>node_text = ''shown'', parent_name = ''div'', is_comment = False\<rparr> = False
   \<and> text_from_html
        (\<lambda>h. Inr [\<lparr>node_text = '' a '', parent_name = ''p'', is_comment = False\<rparr>,
                  \<lparr>node_text = ''b'', parent_name = ''div'', is_comment = False\<rparr>,
                  \<lparr>node_text = ''c'', parent_name = ''p'', is_comment = True\<rparr>]) ()
       = Inr ''a c''"
  using tag_visible_iff_parent_is_p
    [of "\<lparr>node_text = ''hidden'', parent_name = ''p'', is_comment = True\<rparr>" True
        "\<lambda>h. Inr [\<lparr>node_text = '' a '', parent_name = ''p'', is_comment = False\<rparr>,
                  \<lparr>node_text = ''b'', parent_name = ''div'', is_comment = False\<rparr>,
                  \<lparr>node_text = ''c'', parent_name = ''p'', is_comment = True\<rparr>]" "()"]
  by (simp add: tag_visible_def py_strip_def py_isspace_char_def)

section \<open>The text handed to the pipelines\<close>

lemma re_sub_space_before_punctuation_no_space:
  "\<forall>c\<in>set s. \<not> py_isspace_char c \<Longrightarrow> re_sub_space_before_punctuation s = s"
  by (induction s rule: re_sub_space_before_punctuation.induct) simp_all

text \<open>
  C5. \<open>classifier\<close> and \<open>summarise\<close> call their pipeline on the first 1024 characters
  of the source text and on nothing else: the result of \<open>classifier\<close> is what the
  pipeline returns for that prefix, the result of \<open>summarise\<close> is the first summary the
  pipeline returns for that prefix (an exception when there is none), with the spaces
  before punctuation removed. So two source texts with the same first 1024 characters
  give the same call of the pipeline, whatever the pipeline is, and the same result.
\<close>

theorem pipelines_get_the_first_1024_characters:
  assumes "take 1024 source_text = take 1024 source_text'"
  shows "classifier classification source_text search_term
           = classification (take 1024 source_text) search_term
       \<and> classifier classification source_text search_term
           = classifier classification source_text' search_term
       \<and> summarise summarizer source_text
           = (case summarizer (take 1024 source_text) of
                Inl e \<Rightarrow> Inl e
              | Inr [] \<Rightarrow> Inl IndexError
              | Inr (d # ds) \<Rightarrow>
                  (case map_of d ''summary_text'' of
                     None \<Rightarrow> Inl (KeyError ''summary_text'')
                   | Some summary_text \<Rightarrow> Inr (re_sub_space_before_punctuation summary_text)))
       \<and> summarise summarizer source_text = summarise summarizer (take 1024 source_text)
       \<and> summarise summarizer source_text = summarise summarizer source_text'"
proof -
  have call: "summarise summarizer src
           = (case summarizer (take 1024 src) of
                Inl e \<Rightarrow> Inl e
              | Inr [] \<Rightarrow> Inl IndexError
              | Inr (d # ds) \<Rightarrow>
                  (case map_of d ''summary_text'' of
                     None \<Rightarrow> Inl (KeyError ''summary_text'')
                   | Some summary_text \<Rightarrow> Inr (re_sub_space_before_punctuation summary_text)))"
    for src
    by (simp add: summarise_def py_slice_upto_def split: sum.split list.split)
  have "classifier classification src search_term = classification (take 1024 src) search_term"
    for src
    by (simp add: classifier_def py_slice_upto_def)
  with assms call [of source_text] call [of source_text'] call [of "take 1024 source_text"]
  show ?thesis
    by simp
qed

theorem pipelines_get_the_first_1024_characters_witness:
  "take 1024 (replicate 1024 CHR ''a'' @ ''xyz'') = take 1024 (replicate 1024 CHR ''a'' @ ''12'')
   \<and> classifier (\<lambda>s t. Inr \<lparr>zs_sequence = s, zs_labels = [t], zs_scores = [1]\<rparr>)
         (replicate 1024 CHR ''a'' @ ''xyz'') ''ml''
       = Inr \<lparr>zs_sequence = replicate 1024 CHR ''a'', zs_labels = [''ml''], zs_scores = [1]\<rparr>
   \<and> classifier (\<lambda>s t. Inr \<lparr>zs_sequence = s, zs_labels = [t], zs_scores = [1]\<rparr>)
         (replicate 1024 CHR ''a'' @ ''xyz'') ''ml''
       = classifier (\<lambda>s t. Inr \<lparr>zs_sequence = s, zs_labels = [t], zs_scores = [1]\<rparr>)
         (replicate 1024 CHR ''a'' @ ''12'') ''ml''
   \<and> summarise (\<lambda>s. Inr [[(''summary_text'', s)]]) (replicate 1024 CHR ''a'' @ ''xyz'')
       = Inr (replicate 1024 CHR ''a'')
   \<and> summarise (\<lambda>s. Inr [[(''summary_text'', s)]]) (replicate 1024 CHR ''a'' @ ''xyz'')
       = summarise (\<lambda>s. Inr [[(''summary_text'', s)]]) (replicate 1024 CHR ''a'' @ ''12'')"
proof -
  have h: "take 1024 (replicate 1024 CHR ''a'' @ ''xyz'') = take 1024 (replicate 1024 CHR ''a'' @ ''12'')"
    by simp
  have prefix: "take 1024 (replicate 1024 CHR ''a'' @ ''xyz'') = replicate 1024 CHR ''a''"
    by simp
  have kept: "re_sub_space_before_punctuation (replicate 1024 CHR ''a'') = replicate 1024 CHR ''a''"
    by (rule re_sub_space_before_punctuation_no_space) (simp add: py_isspace_char_def)
  note inst = pipelines_get_the_first_1024_characters
    [OF h, of "\<lambda>s t. Inr \<lparr>zs_sequence = s, zs_labels = [t], zs_scores = [1]\<rparr>" "''ml''"
       "\<lambda>s. Inr [[(''summary_text'', s)]]"]
  from inst have c1: "classifier (\<lambda>s t. Inr \<lparr>zs_sequence = s, zs_labels = [t], zs_scores = [1]\<rparr>)
         (replicate 1024 CHR ''a'' @ ''xyz'') ''ml''
       = Inr \<lparr>zs_sequence = replicate 1024 CHR ''a'', zs_labels = [''ml''], zs_scores = [1]\<rparr>"
    by (simp only: prefix)
  from inst have "summarise (\<lambda>s. Inr [[(''summary_text'', s)]]) (replicate 1024 CHR ''a'' @ ''xyz'')
       = (case (\<lambda>s. Inr [[(''summary_text'', s)]]) (take 1024 (replicate 1024 CHR ''a'' @ ''xyz'')) of
                Inl e \<Rightarrow> Inl e
              | Inr [] \<Rightarrow> Inl IndexError
              | Inr (d # ds) \<Rightarrow>
                  (case map_of d ''summary_text'' of
                     None \<Rightarrow> Inl (KeyError ''summary_text'')
                   | Some summary_text \<Rightarrow> Inr (re_sub_space_before_punctuation summary_text)))"
    by (rule conjunct1 [OF conjunct2 [OF conjunct2]])
  also have "\<dots> = Inr (re_sub_space_before_punctuation (replicate 1024 CHR ''a''))"
    unfolding prefix by simp
  finally have s1: "summarise (\<lambda>s. Inr [[(''summary_text'', s)]]) (replicate 1024 CHR ''a'' @ ''xyz'')
       = Inr (replicate 1024 CHR ''a'')"
    by (simp only: kept)
  from inst h c1 s1 show ?thesis
    by blast
qed


section \<open>The articles of the ranking notebook\<close>

lemma article_of_entry_Inr:
  assumes "article_of_entry L search_term entry = Inr a"
  shows "\<exists>t l src p s. title entry = Some t \<and> link entry = Some l
           \<and> published_parsed entry = Some p
           \<and> a = [(''title'', Str t), (''link'', Str l), (''src_text'', Str src),
                  (''published'', Time p), (''relevancy'', Num s)]"
  using assms
  by (auto simp: article_of_entry_def py_getattr_def Let_def
           split: sum.splits option.splits)

lemma recent_entries_Inr:
  "recent_entries L days k es = Inr res \<Longrightarrow>
     res = map fst (filter (\<lambda>(entry, i). \<exists>p t. published_parsed entry = Some p
                                \<and> time_mktime L p = Inr t
                                \<and> time_time L i - t < 86400 * real_of_int days)
                     (zip es [k..<k + length es]))"
proof (induction es arbitrary: k res)
  case Nil
  then show ?case by simp
next
  case (Cons entry rest)
  from Cons.prems obtain p t es' where
    p: "published_parsed entry = Some p" and t: "time_mktime L p = Inr t"
    and rest: "recent_entries L days (Suc k) rest = Inr es'"
    and res: "res = (if time_time L k - t < 86400 * real_of_int days then entry # es' else es')"
    by (auto simp: py_getattr_def Let_def split: sum.splits option.splits)
  have upt: "[k..<k + length (entry # rest)] = k # [Suc k..<Suc k + length rest]"
    by (simp add: upt_rec)
  show ?case
    unfolding upt using Cons.IH [OF rest] p t res by simp
qed

text \<open>
  C7. When the cell that builds \<open>articles\<close> ends without an exception, the date filter
  has returned the entries that passed it, in feed order, and \<open>articles\<close> holds one
  record for each of them, in the same order: the record at position \<open>j\<close> has exactly the
  keys title, link, src_text, published and relevancy, its relevancy is a number (a
  real), and its title, link and publication time are those of the \<open>j\<close>-th entry that
  passed the filter.
\<close>

theorem articles_cell_one_record_per_recent_entry:
  assumes "articles_cell L search_term days newsfeed_entries = (articles, None)"
  shows "\<exists>entries. recent_entries L days 0 newsfeed_entries = Inr entries
           \<and> entries = map fst (filter (\<lambda>(entry, i). \<exists>p t. published_parsed entry = Some p
                                \<and> time_mktime L p = Inr t
                                \<and> time_time L i - t < 86400 * real_of_int days)
                            (zip newsfeed_entries [0..<length newsfeed_entries]))
           \<and> length articles = length entries
           \<and> (\<forall>j<length articles.
                 map fst (articles ! j) = [''title'', ''link'', ''src_text'', ''published'', ''relevancy'']
                 \<and> (\<exists>r. map_of (articles ! j) ''relevancy'' = Some (Num r))
                 \<and> map_of (articles ! j) ''title'' = map_option Str (title (entries ! j))
                 \<and> map_of (articles ! j) ''link'' = map_option Str (link (entries ! j))
                 \<and> map_of (articles ! j) ''published''
                     = map_option Time (published_parsed (entries ! j)))"
proof -
  from assms obtain entries where
    recent: "recent_entries L days 0 newsfeed_entries = Inr entries"
    and loop: "py_for (article_of_entry L search_term) entries [] = (articles, None)"
    by (auto simp: articles_cell_def split: sum.splits)
  from py_for_completes [OF loop]
  have body: "map (article_of_entry L search_term) entries = map Inr articles"
    by simp
  then have len: "length articles = length entries"
    by (metis length_map)
  have rec: "map fst (articles ! j) = [''title'', ''link'', ''src_text'', ''published'', ''relevancy'']
             \<and> (\<exists>r. map_of (articles ! j) ''relevancy'' = Some (Num r))
             \<and> map_of (articles ! j) ''title'' = map_option Str (title (entries ! j))
             \<and> map_of (articles ! j) ''link'' = map_option Str (link (entries ! j))
             \<and> map_of (articles ! j) ''published''
                 = map_option Time (published_parsed (entries ! j))"
    if "j < length articles" for j
  proof -
    have "map (article_of_entry L search_term) entries ! j = map Inr articles ! j"
      using body by simp
    then have "article_of_entry L search_term (entries ! j) = Inr (articles ! j)"
      using that len by simp
    from article_of_entry_Inr [OF this] show ?thesis
      by auto
  qed
  from recent_entries_Inr [OF recent] have "entries = map fst (filter (\<lambda>(entry, i). \<exists>p t. published_parsed entry = Some p
                                \<and> time_mktime L p = Inr t
                                \<and> time_time L i - t < 86400 * real_of_int days)
                            (zip newsfeed_entries [0..<length newsfeed_entries]))"
    by simp
  with recent len rec show ?thesis
    by blast
qed

theorem articles_cell_one_record_per_recent_entry_witness:
  "articles_cell demo_libs ''ml'' 7
      [demo_entry ''A'' ''aa'' 999000, demo_entry ''B'' ''b'' 100, demo_entry ''C'' ''cccc'' 999999]
     = ([demo_article ''A'' ''aa'' 999000 (2 / 10), demo_article ''C'' ''cccc'' 999999 (4 / 10)], None)
   \<and> (\<exists>entries. recent_entries demo_libs 7 0
          [demo_entry ''A'' ''aa'' 999000, demo_entry ''B'' ''b'' 100, demo_entry ''C'' ''cccc'' 999999]
          = Inr entries
        \<and> length [demo_article ''A'' ''aa'' 999000 (2 / 10), demo_article ''C'' ''cccc'' 999999 (4 / 10)]
            = length entries)"
proof -
  have run: "articles_cell demo_libs ''ml'' 7
      [demo_entry ''A'' ''aa'' 999000, demo_entry ''B'' ''b'' 100, demo_entry ''C'' ''cccc'' 999999]
     = ([demo_article ''A'' ''aa'' 999000 (2 / 10), demo_article ''C'' ''cccc'' 999999 (4 / 10)], None)"
    by (simp add: articles_cell_def demo_libs_def demo_entry_def demo_article_def
          py_getattr_def article_of_entry_def text_from_html_def tag_visible_def
          py_strip_def py_isspace_char_def classifier_def py_slice_upto_def py_getitem_def)
  from articles_cell_one_record_per_recent_entry [OF run] run show ?thesis
    by blast
qed


section \<open>The ranking of the articles and its output\<close>

lemma display_article_Inr:
  assumes "display_article L search_term a = Inr d"
  shows "\<exists>t l summ r. d = (t, l, summ, search_term, 100 * r)
           \<and> itemgetter ''title'' a = Inr t \<and> itemgetter ''link'' a = Inr l
           \<and> relevancy_key a = Inr r"
  using assms by (auto simp: display_article_def split: sum.splits)

lemma sorted_articles_Inr:
  assumes "map relevancy_key articles = map Inr keys"
  shows "sorted_articles articles = Inr (map snd (py_sort_reverse fst (zip keys articles)))"
  using assms by (simp add: sorted_articles_def py_comprehension_Inr_iff [THEN iffD2])

lemma keys_of_zipped:
  assumes "map relevancy_key articles = map Inr keys"
    and "(k, a) \<in> set (zip keys articles)"
  shows "relevancy_key a = Inr k"
proof -
  from assms(2) obtain i where i: "i < length keys" "i < length articles"
    "keys ! i = k" "articles ! i = a"
    by (auto simp: set_zip)
  have "map relevancy_key articles ! i = map Inr keys ! i"
    using assms(1) by simp
  with i show ?thesis by simp
qed

text \<open>
  C2. When every article has a float under \<open>relevancy\<close> (as the articles of the loop
  have) and \<open>number_of_articles\<close> is not negative, \<open>sorted_articles\<close> is a permutation of
  \<open>articles\<close> in non-increasing order of relevancy, and an output loop that ends
  without an exception has displayed the first \<open>number_of_articles\<close> records of that
  order, one after the other (all of them when there are fewer), each with its title,
  link and score; the loop does end so when every one of these records can be displayed.
\<close>

theorem sorted_articles_descending_and_output_prefix:
  assumes "map relevancy_key articles = map Inr keys"
    and "0 \<le> number_of_articles"
  shows "\<exists>sorted_arts sorted_keys.
           sorted_articles articles = Inr sorted_arts
           \<and> mset sorted_arts = mset articles
           \<and> map relevancy_key sorted_arts = map Inr sorted_keys
           \<and> sorted_wrt (\<lambda>x y. y \<le> x) sorted_keys
           \<and> (\<forall>shown. output_cell L search_term number_of_articles sorted_arts = (shown, None) \<longrightarrow>
                 length shown = min (nat number_of_articles) (length articles)
                 \<and> (\<forall>j<length shown. \<exists>t l summ.
                       shown ! j = (t, l, summ, search_term, 100 * sorted_keys ! j)
                       \<and> display_article L search_term (sorted_arts ! j) = Inr (shown ! j)
                       \<and> itemgetter ''title'' (sorted_arts ! j) = Inr t
                       \<and> itemgetter ''link'' (sorted_arts ! j) = Inr l))
           \<and> ((\<forall>a\<in>set (take (nat number_of_articles) sorted_arts).
                   \<exists>d. display_article L search_term a = Inr d) \<longrightarrow>
                (\<exists>shown. output_cell L search_term number_of_articles sorted_arts = (shown, None)))"
proof -
  let ?zs = "py_sort_reverse fst (zip keys articles)"
  let ?sorted = "map snd ?zs"
  let ?keys = "map fst ?zs"
  from assms(1) have len: "length keys = length articles"
    by (metis length_map)
  have ret: "sorted_articles articles = Inr ?sorted"
    by (rule sorted_articles_Inr [OF assms(1)])
  have "mset ?sorted = image_mset snd (mset (zip keys articles))"
    by (simp add: mset_py_sort_reverse)
  also have "\<dots> = mset (map snd (zip keys articles))"
    by simp
  also have "\<dots> = mset articles"
    using len by simp
  finally have perm: "mset ?sorted = mset articles" .
  have keys: "map relevancy_key ?sorted = map Inr ?keys"
  proof (rule nth_equalityI)
    show "length (map relevancy_key ?sorted) = length (map Inr ?keys)" by simp
    fix i
    assume "i < length (map relevancy_key ?sorted)"
    then have i: "i < length ?zs" by simp
    then have "?zs ! i \<in> set (zip keys articles)"
      using set_py_sort_reverse [of fst "zip keys articles"] nth_mem by blast
    then have "relevancy_key (snd (?zs ! i)) = Inr (fst (?zs ! i))"
      using keys_of_zipped [OF assms(1), of "fst (?zs ! i)" "snd (?zs ! i)"] by simp
    with i show "map relevancy_key ?sorted ! i = map Inr ?keys ! i" by simp
  qed
  have "sorted_wrt (\<lambda>a b. fst b \<le> fst a) ?zs"
    by (rule py_sort_reverse_descending)
  then have desc: "sorted_wrt (\<lambda>x y. y \<le> x) ?keys"
    by (simp add: sorted_wrt_map)
  have slen: "length ?sorted = length articles"
    using len by (simp add: length_py_sort_reverse)
  have cell: "output_cell L search_term number_of_articles ?sorted
                = py_for (display_article L search_term) (take (nat number_of_articles) ?sorted) []"
    using assms(2) by (simp add: output_cell_def py_slice_upto_nonneg)
  have out: "length shown = min (nat number_of_articles) (length articles)
             \<and> (\<forall>j<length shown. \<exists>t l summ.
                   shown ! j = (t, l, summ, search_term, 100 * ?keys ! j)
                   \<and> display_article L search_term (?sorted ! j) = Inr (shown ! j)
                   \<and> itemgetter ''title'' (?sorted ! j) = Inr t
                   \<and> itemgetter ''link'' (?sorted ! j) = Inr l)"
    if run: "output_cell L search_term number_of_articles ?sorted = (shown, None)" for shown
  proof -
    from run cell py_for_completes
    have body: "map (display_article L search_term) (take (nat number_of_articles) ?sorted)
                  = map Inr shown"
      by fastforce
    then have "length shown = length (take (nat number_of_articles) ?sorted)"
      by (metis length_map)
    then have n: "length shown = min (nat number_of_articles) (length articles)"
      using slen by (simp add: min.commute)
    have "\<exists>t l summ.
            shown ! j = (t, l, summ, search_term, 100 * ?keys ! j)
            \<and> display_article L search_term (?sorted ! j) = Inr (shown ! j)
            \<and> itemgetter ''title'' (?sorted ! j) = Inr t
            \<and> itemgetter ''link'' (?sorted ! j) = Inr l"
      if j: "j < length shown" for j
    proof -
      from j n slen have jn: "j < nat number_of_articles" and js: "j < length ?sorted"
        by simp_all
      have "map (display_article L search_term) (take (nat number_of_articles) ?sorted) ! j
              = map Inr shown ! j"
        by (simp only: body)
      then have d: "display_article L search_term (?sorted ! j) = Inr (shown ! j)"
        using j jn js by simp
      have "map relevancy_key ?sorted ! j = map Inr ?keys ! j"
        by (simp only: keys)
      then have k: "relevancy_key (?sorted ! j) = Inr (?keys ! j)"
        using js by simp
      from display_article_Inr [OF d] k show ?thesis
        using d by auto
    qed
    with n show ?thesis by blast
  qed
  have runs: "\<exists>shown. output_cell L search_term number_of_articles ?sorted = (shown, None)"
    if ok: "\<forall>a\<in>set (take (nat number_of_articles) ?sorted). \<exists>d. display_article L search_term a = Inr d"
  proof -
    from all_Inr_map [OF ok]
    have "\<exists>ds. map (display_article L search_term) (take (nat number_of_articles) ?sorted)
                    = map Inr ds" .
    then obtain ds where "map (display_article L search_term) (take (nat number_of_articles) ?sorted)
                    = map Inr ds" by blast
    from py_for_success [OF this, of "[]"] cell show ?thesis by simp
  qed
  from ret perm keys desc out runs show ?thesis
    by blast
qed

theorem sorted_articles_descending_and_output_prefix_witness:
  "map relevancy_key
      [demo_article ''A'' ''aa'' 1 (2 / 10), demo_article ''C'' ''cccc'' 2 (4 / 10),
       demo_article ''B'' ''b'' 3 (1 / 10)]
     = map Inr [2 / 10, 4 / 10, 1 / 10]
   \<and> (0 :: int) \<le> 2
   \<and> sorted_articles
        [demo_article ''A'' ''aa'' 1 (2 / 10), demo_article ''C'' ''cccc'' 2 (4 / 10),
         demo_article ''B'' ''b'' 3 (1 / 10)]
       = Inr [demo_article ''C'' ''cccc'' 2 (4 / 10), demo_article ''A'' ''aa'' 1 (2 / 10),
              demo_article ''B'' ''b'' 3 (1 / 10)]
   \<and> mset [demo_article ''C'' ''cccc'' 2 (4 / 10), demo_article ''A'' ''aa'' 1 (2 / 10),
            demo_article ''B'' ''b'' 3 (1 / 10)]
       = mset [demo_article ''A'' ''aa'' 1 (2 / 10), demo_article ''C'' ''cccc'' 2 (4 / 10),
               demo_article ''B'' ''b'' 3 (1 / 10)]
   \<and> (\<exists>shown. output_cell demo_libs ''ml'' 2
          [demo_article ''C'' ''cccc'' 2 (4 / 10), demo_article ''A'' ''aa'' 1 (2 / 10),
           demo_article ''B'' ''b'' 3 (1 / 10)] = (shown, None)
        \<and> length shown = 2)"
proof -
  let ?arts = "[demo_article ''A'' ''aa'' 1 (2 / 10), demo_article ''C'' ''cccc'' 2 (4 / 10),
       demo_article ''B'' ''b'' 3 (1 / 10)]"
  let ?sorted = "[demo_article ''C'' ''cccc'' 2 (4 / 10), demo_article ''A'' ''aa'' 1 (2 / 10),
       demo_article ''B'' ''b'' 3 (1 / 10)]"
  have keys: "map relevancy_key ?arts = map Inr [2 / 10, 4 / 10, 1 / 10]"
    by (simp add: relevancy_key_def itemgetter_def demo_article_def)
  have n: "(0 :: int) \<le> 2" by simp
  have sorted: "sorted_articles ?arts = Inr ?sorted"
    by (simp add: sorted_articles_def relevancy_key_def itemgetter_def demo_article_def
          py_sort_reverse_def)
  have shown: "\<forall>a\<in>set (take (nat 2) ?sorted). \<exists>d. display_article demo_libs ''ml'' a = Inr d"
    by (simp add: display_article_def relevancy_key_def itemgetter_def demo_article_def
          demo_libs_def summarise_def py_slice_upto_def py_isspace_char_def)
  from sorted_articles_descending_and_output_prefix [OF keys n, of demo_libs "''ml''"]
  obtain sorted_arts where s: "sorted_articles ?arts = Inr sorted_arts"
    and perm: "mset sorted_arts = mset ?arts"
    and out: "\<forall>shown. output_cell demo_libs ''ml'' 2 sorted_arts = (shown, None) \<longrightarrow>
                 length shown = min (nat 2) (length ?arts)"
    and runs: "(\<forall>a\<in>set (take (nat 2) sorted_arts). \<exists>d. display_article demo_libs ''ml'' a = Inr d)
                 \<longrightarrow> (\<exists>shown. output_cell demo_libs ''ml'' 2 sorted_arts = (shown, None))"
    by blast
  from s sorted have eq: "sorted_arts = ?sorted" by simp
  from runs shown eq obtain shown where
    run: "output_cell demo_libs ''ml'' 2 ?sorted = (shown, None)" by blast
  with out eq have "length shown = 2" by simp
  with keys n sorted perm eq run show ?thesis by blast
qed


section \<open>The semantic search\<close>

text \<open>
  For \<open>num_results \<ge> 1\<close>: when the encoder and \<open>cosine_similarity\<close> return one similarity
  per sentence and \<open>argsort\<close> returns the indices in ascending order of similarity, the
  output is the \<open>num_results\<close> sentences of highest similarity (all sentences when there
  are fewer), each with its own similarity, in non-increasing order.
\<close>

lemma search_results_top_sentences:
  assumes "encode input_text = Inr encoded_text"
    and "encode [search_term] = Inr encoded_query"
    and "cosine_similarity encoded_query encoded_text = Inr (results # others)"
    and "length results = length input_text"
    and "mset (argsort results) = mset [0..<length results]"
    and "sorted (map (\<lambda>i. results ! i) (argsort results))"
    and "1 \<le> num_results"
  shows "\<exists>idx. search_results encode cosine_similarity argsort input_text search_term num_results
                 = Inr (map (\<lambda>i. (input_text ! i, results ! i)) idx)
           \<and> length idx = min (nat num_results) (length input_text)
           \<and> distinct idx
           \<and> (\<forall>i\<in>set idx. i < length input_text)
           \<and> sorted_wrt (\<lambda>i j. results ! j \<le> results ! i) idx
           \<and> (\<forall>k<length input_text. k \<notin> set idx \<longrightarrow> (\<forall>i\<in>set idx. results ! k \<le> results ! i))"
proof -
  let ?a = "argsort results"
  let ?m = "length ?a - nat num_results"
  let ?idx = "rev (drop ?m ?a)"
  have la: "length ?a = length results"
    using assms(5) by (metis size_mset length_upt diff_zero)
  have seta: "set ?a = {0..<length results}"
    using assms(5) by (metis set_mset_mset set_upt)
  have dista: "distinct ?a"
    using assms(5) by (metis mset_eq_imp_distinct_iff distinct_upt)
  have slice: "py_slice_from ?a (- num_results) = drop ?m ?a"
  proof -
    have "nat (int (length ?a) + - num_results) = ?m"
      using assms(7) by simp
    with assms(7) show ?thesis
      by (simp add: py_slice_from_def)
  qed
  have in_range: "\<forall>i\<in>set ?idx. i < length input_text"
  proof
    fix i
    assume "i \<in> set ?idx"
    then have "i \<in> set ?a"
      by (auto dest: in_set_dropD)
    with seta assms(4) show "i < length input_text" by simp
  qed
  then have in_results: "\<forall>i\<in>set ?idx. i < length results"
    using assms(4) by simp
  have scores: "py_comprehension (py_getitem results) ?idx = Inr (map (\<lambda>i. results ! i) ?idx)"
    by (rule py_comprehension_getitem [OF in_results])
  have sentences: "py_comprehension (py_getitem input_text) ?idx
                     = Inr (map (\<lambda>i. input_text ! i) ?idx)"
    by (rule py_comprehension_getitem [OF in_range])
  have "zip (map (\<lambda>i. input_text ! i) ?idx) (map (\<lambda>i. results ! i) ?idx)
          = map (\<lambda>i. (input_text ! i, results ! i)) ?idx"
    by (simp add: zip_map_map zip_same_conv_map)
  then have ret: "search_results encode cosine_similarity argsort input_text search_term num_results
                    = Inr (map (\<lambda>i. (input_text ! i, results ! i)) ?idx)"
    using assms(1,2,3) slice scores sentences
    by (simp add: search_results_def py_getitem_def)
  have len: "length ?idx = min (nat num_results) (length input_text)"
    using la assms(4) by simp
  have dist: "distinct ?idx"
    using dista by simp
  have asc: "sorted_wrt (\<lambda>i j. results ! i \<le> results ! j) ?a"
    using assms(6) by (simp add: sorted_wrt_map)
  then have "sorted_wrt (\<lambda>i j. results ! i \<le> results ! j) (drop ?m ?a)"
    by (rule sorted_wrt_drop)
  then have desc: "sorted_wrt (\<lambda>i j. results ! j \<le> results ! i) ?idx"
    by (simp add: sorted_wrt_rev)
  have top: "results ! k \<le> results ! i"
    if k: "k < length input_text" "k \<notin> set ?idx" and i: "i \<in> set ?idx" for k i
  proof -
    from k(1) seta assms(4) have "k \<in> set ?a" by simp
    then have "k \<in> set (take ?m ?a) \<or> k \<in> set (drop ?m ?a)"
      by (metis append_take_drop_id set_append Un_iff)
    with k(2) have "k \<in> set (take ?m ?a)" by simp
    moreover from i have "i \<in> set (drop ?m ?a)" by simp
    moreover have "sorted_wrt (\<lambda>i j. results ! i \<le> results ! j) (take ?m ?a @ drop ?m ?a)"
      using asc by simp
    ultimately show ?thesis
      unfolding sorted_wrt_append by blast
  qed
  from ret len dist in_range desc top show ?thesis
    by blast
qed

lemma search_results_top_sentences_example:
  "search_results (\<lambda>sentences. Inr sentences)
      (\<lambda>query texts. Inr [map (\<lambda>s. real (length s)) texts]) demo_argsort
      [''aa'', ''bbbb'', ''c''] ''q'' 2
     = Inr [(''bbbb'', 4), (''aa'', 2)]
   \<and> (\<exists>idx. search_results (\<lambda>sentences. Inr sentences)
                (\<lambda>query texts. Inr [map (\<lambda>s. real (length s)) texts]) demo_argsort
                [''aa'', ''bbbb'', ''c''] ''q'' 2
               = Inr (map (\<lambda>i. ([''aa'', ''bbbb'', ''c''] ! i, [2, 4, 1 :: real] ! i)) idx)
         \<and> length idx = min (nat 2) (length [''aa'', ''bbbb'', ''c''])
         \<and> distinct idx)"
proof -
  let ?encode = "(\<lambda>sentences. Inr sentences) :: string list \<Rightarrow> py_error + string list"
  let ?cos = "(\<lambda>query texts. Inr [map (\<lambda>s. real (length s)) texts])
                :: string list \<Rightarrow> string list \<Rightarrow> py_error + real list list"
  have run: "search_results ?encode ?cos demo_argsort [''aa'', ''bbbb'', ''c''] ''q'' 2
               = Inr [(''bbbb'', 4), (''aa'', 2)]"
    by (simp add: search_results_def py_getitem_def py_slice_from_def demo_argsort_def upt_rec)
  have h1: "?encode [''aa'', ''bbbb'', ''c''] = Inr [''aa'', ''bbbb'', ''c'']" by simp
  have h2: "?encode [''q''] = Inr [''q'']" by simp
  have h3: "?cos [''q''] [''aa'', ''bbbb'', ''c''] = Inr ([2, 4, 1] # [])" by simp
  have h4: "length [2, 4, 1 :: real] = length [''aa'', ''bbbb'', ''c'']" by simp
  have h5: "mset (demo_argsort [2, 4, 1]) = mset [0..<length [2, 4, 1 :: real]]"
    by (simp add: demo_argsort_def)
  have h6: "sorted (map (\<lambda>i. [2, 4, 1 :: real] ! i) (demo_argsort [2, 4, 1]))"
    by (simp add: demo_argsort_def)
  have h7: "(1 :: int) \<le> 2" by simp
  from search_results_top_sentences
         [where encode = ?encode and cosine_similarity = ?cos and argsort = demo_argsort,
          OF h1 h2 h3 h4 h5 h6 h7] run
  show ?thesis
    by blast
qed

text \<open>
  C4. With \<open>num_results = 0\<close> the slice \<^verbatim>\<open>results.argsort()[-num_results:]\<close> is
  \<^verbatim>\<open>[0:]\<close>, the whole array: for three sentences all three are displayed, in
  non-increasing order of similarity, and not the \<open>num_results = 0\<close> sentences of
  highest similarity.
\<close>

theorem search_results_zero_shows_all:
  "search_results (\<lambda>sentences. Inr sentences)
      (\<lambda>query texts. Inr [map (\<lambda>s. real (length s)) texts]) demo_argsort
      [''aa'', ''bbbb'', ''c''] ''q'' 0
     = Inr [(''bbbb'', 4), (''aa'', 2), (''c'', 1)]"
  by (simp add: search_results_def py_getitem_def py_slice_from_def demo_argsort_def upt_rec)


section \<open>Exceptions\<close>






end
